theory Spec2Isabelle
  imports Complex_Main
begin

section \<open>The replay buffer and the SGLD sampler of JEM\<close>

text \<open>
  A shallow embedding of \<^verbatim>\<open>uncertainty_est/models/JEM/jem.py\<close>: the constructor's
  buffer set-up, \<^verbatim>\<open>sample_p_0\<close> and \<^verbatim>\<open>sample_q\<close>.

  \<^item> A sample (a tensor of shape \<^verbatim>\<open>data_shape\<close>) is the flat list of its elements; a
    batch, and the replay buffer, is a list of samples. The element type is any type
    with the arithmetic the code uses; no law of that arithmetic is assumed, so what is
    proved holds for floating-point numbers as well.
  \<^item> Integer tensors (labels, slot indices) are lists of \<open>int\<close>. They are tensors of
    torch's default integer type, 64 bits wide and signed, as \<^verbatim>\<open>torch.randint\<close> returns
    them; where the code computes on them, the result is wrapped to these 64 bits.
  \<^item> Every random draw is read from an explicit source, indexed by position.
  \<^item> The scoring network and torch's differentiation are a record of functions that may
    fail; the network's mode flag and its parameters are fields of the state.
  \<^item> An exception is a value \<open>Inl e\<close>. \<^verbatim>\<open>sample_q\<close> returns the state together with the
    result, since the state it has mutated so far survives an exception.
  Device moves, \<^verbatim>\<open>clone\<close>, \<^verbatim>\<open>detach\<close> and \<^verbatim>\<open>requires_grad\<close> do not change values and are
  left out.
\<close>

subsection \<open>Errors and tensors\<close>

datatype error =
    AssertionError
  | ZeroDivisionError
  | IndexError
  | RuntimeError
  | AttributeError
  | ScoringError

type_synonym 'a tensor = "'a list list"

text \<open>Sequencing of fallible computations: the first exception wins.\<close>

definition bind_err :: "error + 'b \<Rightarrow> ('b \<Rightarrow> error + 'c) \<Rightarrow> error + 'c" where
  "bind_err r f = (case r of Inl e \<Rightarrow> Inl e | Inr v \<Rightarrow> f v)"

text \<open>Python's \<^verbatim>\<open>a // b\<close> on integers: floor division, raising on a zero divisor.\<close>

definition floordiv :: "int \<Rightarrow> int \<Rightarrow> error + int" where
  "floordiv a b = (if b = 0 then Inl ZeroDivisionError else Inr (a div b))"

text \<open>
  The value a 64-bit signed integer holds after an operation whose exact result is \<open>k\<close>:
  torch's integer tensors wrap around without raising.
\<close>

definition wrap64 :: "int \<Rightarrow> int" where
  "wrap64 k = (k + 2 ^ 63) mod 2 ^ 64 - 2 ^ 63"

text \<open>
  Broadcasting of a binary operation along the batch dimension: equal lengths pair up, a
  batch of one is repeated, anything else is a shape error.
\<close>

definition broadcast2 :: "('b \<Rightarrow> 'c \<Rightarrow> 'd) \<Rightarrow> 'b list \<Rightarrow> 'c list \<Rightarrow> error + 'd list" where
  "broadcast2 f xs ys =
     (if length xs = length ys then Inr (map2 f xs ys)
      else if length xs = 1 then Inr (map (f (hd xs)) ys)
      else if length ys = 1 then Inr (map (\<lambda>x. f x (hd ys)) xs)
      else Inl RuntimeError)"

text \<open>
  Indexing a tensor's first dimension with an integer: \<open>0 \<le> i < n\<close> counts from the
  front, \<open>-n \<le> i < 0\<close> from the back, anything else raises.
\<close>

definition valid_index :: "nat \<Rightarrow> int \<Rightarrow> bool" where
  "valid_index n i = (- int n \<le> i \<and> i < int n)"

definition slot :: "nat \<Rightarrow> int \<Rightarrow> nat" where
  "slot n i = (if i < 0 then nat (int n + i) else nat i)"

text \<open>\<^verbatim>\<open>replay_buffer[inds]\<close>: a copy of the rows at the given indices.\<close>

definition index_select :: "'b list \<Rightarrow> int list \<Rightarrow> error + 'b list" where
  "index_select buf inds =
     (if list_all (valid_index (length buf)) inds
      then Inr (map (\<lambda>i. buf ! slot (length buf) i) inds)
      else Inl IndexError)"

text \<open>
  \<^verbatim>\<open>replay_buffer[inds] = vals\<close>: the indices are checked, the values are broadcast to
  the number of indices, and every slot that some position addresses receives the value
  of one such position. Where several positions address one slot, torch does not
  determine which of their values stays: \<open>choice k\<close> settles it for slot \<open>k\<close>, and every
  position that writes to the slot can be the one.
\<close>

definition writers :: "nat \<Rightarrow> int list \<Rightarrow> nat \<Rightarrow> nat list" where
  "writers n inds k = filter (\<lambda>p. slot n (inds ! p) = k) [0..<length inds]"

definition store_rows :: "(nat \<Rightarrow> nat) \<Rightarrow> 'b list \<Rightarrow> int list \<Rightarrow> 'b list \<Rightarrow> 'b list" where
  "store_rows choice buf inds vals =
     map (\<lambda>k. case writers (length buf) inds k of
                [] \<Rightarrow> buf ! k
              | p # ps \<Rightarrow> vals ! ((p # ps) ! (choice k mod length (p # ps))))
       [0..<length buf]"

definition index_put ::
  "(nat \<Rightarrow> nat) \<Rightarrow> 'b list \<Rightarrow> int list \<Rightarrow> 'b list \<Rightarrow> error + 'b list" where
  "index_put choice buf inds vals =
     (if \<not> list_all (valid_index (length buf)) inds then Inl IndexError
      else if length vals = length inds then Inr (store_rows choice buf inds vals)
      else if length vals = 1
        then Inr (store_rows choice buf inds (replicate (length inds) (hd vals)))
      else Inl RuntimeError)"

subsection \<open>Configuration, random source, scoring collaborator, state\<close>

text \<open>The hyperparameters \<^verbatim>\<open>self.__dict__.update(locals())\<close> stores that the sampler reads.\<close>

record 'a hparams =
  buffer_size :: nat
  n_classes :: int
  data_shape :: "nat list"
  smoothing :: 'a
  sgld_batch_size :: nat
  sgld_lr :: 'a
  sgld_std :: 'a
  reinit_freq :: 'a
  uncond :: bool

text \<open>
  The random draws of one call. \<open>randint_draw i\<close> is entry \<open>i\<close> of
  \<^verbatim>\<open>torch.randint(0, buffer_size, (bs,))\<close>, \<open>rand_draw i\<close> entry \<open>i\<close> of \<^verbatim>\<open>torch.rand(bs)\<close>,
  \<open>init_draw i j\<close> element \<open>j\<close> of sample \<open>i\<close> of \<^verbatim>\<open>init_random\<close>, and \<open>randn_draw k i j\<close>
  element \<open>j\<close> of sample \<open>i\<close> of the \<^verbatim>\<open>torch.randn_like(x_k)\<close> of step \<open>k\<close>. The last
  field is no draw of the program's: \<open>put_choice\<close> is the choice that the write-back
  leaves to torch.
\<close>

record 'a rng =
  randint_draw :: "nat \<Rightarrow> int"
  rand_draw :: "nat \<Rightarrow> 'a"
  init_draw :: "nat \<Rightarrow> nat \<Rightarrow> 'a"
  randn_draw :: "nat \<Rightarrow> nat \<Rightarrow> nat \<Rightarrow> 'a"
  put_choice :: "nat \<Rightarrow> nat"

text \<open>
  The collaborators of the loop. \<open>score mode ps x y\<close> is the output of
  \<^verbatim>\<open>self.model(x, y=y)\<close>, the list of its elements, for the network's mode flag and
  parameters. \<open>autograd f x\<close> is \<^verbatim>\<open>torch.autograd.grad(energy, [x_k])[0]\<close>: the gradient,
  at the positions \<open>x\<close>, of the scalar \<open>f\<close> computes from the positions. \<open>joint\<close> is the call
  of \<^verbatim>\<open>self.model.joint\<close> in the \<^verbatim>\<open>contrast\<close> branch, whose results the model does not
  need, and \<open>smooth_one_hot\<close> is the helper of that name. The network's code
  (\<^verbatim>\<open>model.py\<close>) and the helper (\<^verbatim>\<open>utils.py\<close>) are not among the sources. Each of
  these calls is given the parameters and returns a value: \<^verbatim>\<open>torch.autograd.grad\<close> returns
  the gradient instead of accumulating it in the parameters' \<^verbatim>\<open>.grad\<close>, and
  \<^verbatim>\<open>sample_q\<close> runs no optimizer step.
\<close>

record ('a, 'p) scorer =
  score :: "bool \<Rightarrow> 'p \<Rightarrow> 'a tensor \<Rightarrow> int list option \<Rightarrow> error + 'a list"
  autograd :: "('a tensor \<Rightarrow> error + 'a) \<Rightarrow> 'a tensor \<Rightarrow> error + 'a tensor"
  joint :: "bool \<Rightarrow> 'p \<Rightarrow> 'a tensor \<Rightarrow> 'a tensor \<Rightarrow> error + unit"
  smooth_one_hot :: "int list \<Rightarrow> int \<Rightarrow> 'a \<Rightarrow> 'a tensor"

text \<open>
  What a call can change: the mode flag of \<^verbatim>\<open>self.model\<close> (\<open>True\<close> is training mode),
  the network's parameters, and the replay buffer handed to \<^verbatim>\<open>sample_q\<close>.
\<close>

record ('a, 'p) jem_state =
  model_training :: bool
  model_params :: 'p
  replay_buffer :: "'a tensor"

subsection \<open>Random tensors\<close>

text \<open>
  Modelled from the spec: \<^verbatim>\<open>init_random\<close> lives in \<^verbatim>\<open>uncertainty_est/models/JEM/utils.py\<close>,
  which is not among the sources. The spec has it return \<open>bs\<close> freshly drawn random
  samples of the data shape.
\<close>

definition init_random :: "'a rng \<Rightarrow> nat \<Rightarrow> nat list \<Rightarrow> 'a tensor" where
  "init_random g bs shape =
     map (\<lambda>i. map (\<lambda>j. init_draw g i j) [0..<prod_list shape]) [0..<bs]"

text \<open>\<^verbatim>\<open>torch.randint(0, high, (bs,))\<close> raises unless \<open>0 < high\<close>.\<close>

definition randint :: "'a rng \<Rightarrow> int \<Rightarrow> nat \<Rightarrow> error + int list" where
  "randint g high bs =
     (if high \<le> 0 then Inl RuntimeError else Inr (map (randint_draw g) [0..<bs]))"

text \<open>\<^verbatim>\<open>torch.randn_like(x)\<close> at step \<open>k\<close>: one draw for every element of \<open>x\<close>.\<close>

definition randn_like :: "'a rng \<Rightarrow> nat \<Rightarrow> 'a tensor \<Rightarrow> 'a tensor" where
  "randn_like g k x =
     map (\<lambda>i. map (\<lambda>j. randn_draw g k i j) [0..<length (x ! i)]) [0..<length x]"

text \<open>\<^verbatim>\<open>torch.ones((bs, n))\<close> raises on a negative dimension.\<close>

definition ones :: "nat \<Rightarrow> int \<Rightarrow> error + ('a::one) tensor" where
  "ones bs n = (if n < 0 then Inl RuntimeError else Inr (replicate bs (replicate (nat n) 1)))"

subsection \<open>The constructor's buffer set-up\<close>

text \<open>
  Lines 52 to 57 of \<^verbatim>\<open>JEM.__init__\<close>: in class-conditional mode the assertion on
  \<^verbatim>\<open>buffer_size % n_classes\<close> (whose \<^verbatim>\<open>%\<close> raises on zero), then the buffer filled by
  \<^verbatim>\<open>init_random\<close>.
\<close>

definition init_replay_buffer :: "'a hparams \<Rightarrow> 'a rng \<Rightarrow> error + 'a tensor" where
  "init_replay_buffer hp g =
     (if \<not> uncond hp \<and> n_classes hp = 0 then Inl ZeroDivisionError
      else if \<not> uncond hp \<and> int (buffer_size hp) mod n_classes hp \<noteq> 0 then Inl AssertionError
      else Inr (init_random g (buffer_size hp) (data_shape hp)))"

subsection \<open>\<^verbatim>\<open>sample_p_0\<close>\<close>

text \<open>The size of the range the slot draws come from: the buffer, or one class block.\<close>

definition block_size :: "'a hparams \<Rightarrow> 'b list \<Rightarrow> int list option \<Rightarrow> error + int" where
  "block_size hp buf y =
     (case y of None \<Rightarrow> Inr (int (length buf))
      | Some _ \<Rightarrow> floordiv (int (length buf)) (n_classes hp))"

text \<open>
  \<^verbatim>\<open>inds = y.cpu() * buffer_size + inds\<close>, in 64-bit arithmetic, followed by the assertion
  that the model is class-conditional.
\<close>

definition cond_inds :: "'a hparams \<Rightarrow> int \<Rightarrow> int list option \<Rightarrow> int list \<Rightarrow> error + int list" where
  "cond_inds hp bsz y inds =
     (case y of None \<Rightarrow> Inr inds
      | Some ys \<Rightarrow>
          bind_err (broadcast2 (\<lambda>p r. wrap64 (p + r)) (map (\<lambda>l. wrap64 (l * bsz)) ys) inds)
            (\<lambda>inds'. if uncond hp then Inl AssertionError else Inr inds'))"

text \<open>
  \<^verbatim>\<open>choose_random * random_samples + (1 - choose_random) * buffer_samples\<close>, where
  \<^verbatim>\<open>choose_random\<close> holds one number per sample, 1 where the uniform draw is below
  \<^verbatim>\<open>reinit_freq\<close> and 0 elsewhere, broadcast over the sample's elements.
\<close>

definition choose_random :: "('a::{zero,one,ord}) hparams \<Rightarrow> 'a rng \<Rightarrow> nat \<Rightarrow> 'a list" where
  "choose_random hp g bs = map (\<lambda>i. if rand_draw g i < reinit_freq hp then 1 else 0) [0..<bs]"

definition mix_samples ::
  "('a::{plus,minus,times,one}) list \<Rightarrow> 'a tensor \<Rightarrow> 'a tensor \<Rightarrow> error + 'a tensor" where
  "mix_samples c random_samples buffer_samples =
     bind_err (broadcast2 (\<lambda>ci r. map (\<lambda>v. ci * v) r) c random_samples) (\<lambda>a.
     bind_err (broadcast2 (\<lambda>ci b. map (\<lambda>v. (1 - ci) * v) b) c buffer_samples) (\<lambda>b.
     broadcast2 (map2 (+)) a b))"

definition sample_p_0 ::
  "('a::{zero,one,plus,minus,times,ord}) hparams \<Rightarrow> 'a rng \<Rightarrow> 'a tensor \<Rightarrow> nat \<Rightarrow>
     int list option \<Rightarrow> error + ('a tensor \<times> int list)" where
  "sample_p_0 hp g buf bs y =
     (if length buf = 0 then Inr (init_random g bs (data_shape hp), [])
      else
        bind_err (block_size hp buf y) (\<lambda>bsz.
        bind_err (randint g bsz bs) (\<lambda>inds0.
        bind_err (cond_inds hp bsz y inds0) (\<lambda>inds.
        bind_err (index_select buf inds) (\<lambda>buffer_samples.
        bind_err (mix_samples (choose_random hp g bs)
                    (init_random g bs (data_shape hp)) buffer_samples) (\<lambda>samples.
        Inr (samples, inds)))))))"



subsection \<open>\<^verbatim>\<open>sample_q\<close>\<close>

text \<open>\<^verbatim>\<open>.sum()\<close>: the sum of the elements of a tensor, from the left.\<close>

definition tsum :: "('a::{zero,plus}) list \<Rightarrow> 'a" where
  "tsum xs = foldl (+) 0 xs"

text \<open>
  \<^verbatim>\<open>energy = self.model(x_k, y=y).sum()\<close> as a function of the positions, for a mode
  flag, parameters and labels that stay fixed.
\<close>

definition energy ::
  "('a::{zero,plus}, 'p) scorer \<Rightarrow> bool \<Rightarrow> 'p \<Rightarrow> int list option \<Rightarrow> 'a tensor \<Rightarrow> error + 'a" where
  "energy m mode ps y x = bind_err (score m mode ps x y) (\<lambda>out. Inr (tsum out))"

text \<open>
  The gradient \<^verbatim>\<open>f_prime\<close> of one step. Without \<^verbatim>\<open>contrast\<close> the energy is computed at
  \<^verbatim>\<open>x_k\<close> and differentiated with respect to \<^verbatim>\<open>x_k\<close>. With \<^verbatim>\<open>contrast\<close>, line 209 reads
  \<^verbatim>\<open>F.cross_entropy\<close>, where line 10 has rebound \<^verbatim>\<open>F\<close> from \<^verbatim>\<open>torch.nn.functional\<close> to the
  network class of \<^verbatim>\<open>model.py\<close>, a torch module class with no attribute of that name:
  once \<^verbatim>\<open>dist\<close> is built and \<^verbatim>\<open>self.model.joint\<close> has returned, the step raises.
\<close>

definition f_prime ::
  "('a::{zero,one,plus}) hparams \<Rightarrow> ('a, 'p) scorer \<Rightarrow> bool \<Rightarrow> 'p \<Rightarrow> int list option \<Rightarrow> nat \<Rightarrow>
     bool \<Rightarrow> 'a tensor \<Rightarrow> error + 'a tensor" where
  "f_prime hp m mode ps y bs contrast x_k =
     (if \<not> contrast
      then bind_err (energy m mode ps y x_k) (\<lambda>e. autograd m (energy m mode ps y) x_k)
      else
        bind_err (case y of Some ys \<Rightarrow> Inr (smooth_one_hot m ys (n_classes hp) (smoothing hp))
                  | None \<Rightarrow> ones bs (n_classes hp))
          (\<lambda>dist. bind_err (joint m mode ps x_k dist) (\<lambda>u. Inl AttributeError)))"

text \<open>
  \<^verbatim>\<open>x_k.data += self.sgld_lr * f_prime + self.sgld_std * torch.randn_like(x_k)\<close>, on tensors
  of one shape: the noise has the shape of \<^verbatim>\<open>x_k\<close> by construction, the gradient by
  \<^verbatim>\<open>torch.autograd.grad\<close> (see \<open>grad_shape_ok\<close> below).
\<close>

definition t_scale :: "('a::times) \<Rightarrow> 'a tensor \<Rightarrow> 'a tensor" where
  "t_scale c t = map (map (\<lambda>v. c * v)) t"

definition t_add :: "('a::plus) tensor \<Rightarrow> 'a tensor \<Rightarrow> 'a tensor" where
  "t_add a b = map2 (map2 (+)) a b"

definition sgld_update ::
  "('a::{plus,times}) hparams \<Rightarrow> 'a rng \<Rightarrow> nat \<Rightarrow> 'a tensor \<Rightarrow> 'a tensor \<Rightarrow> 'a tensor" where
  "sgld_update hp g k x_k grad =
     t_add x_k (t_add (t_scale (sgld_lr hp) grad) (t_scale (sgld_std hp) (randn_like g k x_k)))"

text \<open>
  The loop \<^verbatim>\<open>for _ in range(n_steps)\<close>: the first argument counts the steps left, \<open>k\<close>
  the steps done. An exception of the scoring network ends the loop.
\<close>

fun sgld ::
  "nat \<Rightarrow> ('a::{zero,one,plus,times}) hparams \<Rightarrow> ('a, 'p) scorer \<Rightarrow> 'a rng \<Rightarrow> bool \<Rightarrow> 'p \<Rightarrow>
     int list option \<Rightarrow> nat \<Rightarrow> bool \<Rightarrow> nat \<Rightarrow> 'a tensor \<Rightarrow> error + 'a tensor" where
  "sgld 0 hp m g mode ps y bs contrast k x_k = Inr x_k"
| "sgld (Suc n) hp m g mode ps y bs contrast k x_k =
     (case f_prime hp m mode ps y bs contrast x_k of
        Inl e \<Rightarrow> Inl e
      | Inr grad \<Rightarrow> sgld n hp m g mode ps y bs contrast (Suc k) (sgld_update hp g k x_k grad))"

text \<open>\<^verbatim>\<open>bs = self.sgld_batch_size if y is None else y.size(0)\<close>.\<close>

definition batch_size :: "'a hparams \<Rightarrow> int list option \<Rightarrow> nat" where
  "batch_size hp y = (case y of None \<Rightarrow> sgld_batch_size hp | Some ys \<Rightarrow> length ys)"

text \<open>
  \<^verbatim>\<open>sample_q\<close>: \<^verbatim>\<open>self.model.eval()\<close>, the initial samples, the loop,
  \<^verbatim>\<open>self.model.train()\<close>, and the write-back into a non-empty buffer.
\<close>

definition sample_q ::
  "('a::{zero,one,plus,minus,times,ord}) hparams \<Rightarrow> ('a, 'p) scorer \<Rightarrow> 'a rng \<Rightarrow>
     ('a, 'p) jem_state \<Rightarrow> int list option \<Rightarrow> nat \<Rightarrow> bool \<Rightarrow>
     (error + 'a tensor) \<times> ('a, 'p) jem_state" where
  "sample_q hp m g st y n_steps contrast =
     (let st1 = st\<lparr>model_training := False\<rparr>;
          bs = batch_size hp y
      in case sample_p_0 hp g (replay_buffer st1) bs y of
           Inl e \<Rightarrow> (Inl e, st1)
         | Inr (init_sample, buffer_inds) \<Rightarrow>
             (case sgld n_steps hp m g (model_training st1) (model_params st1) y bs contrast 0
                     init_sample of
                Inl e \<Rightarrow> (Inl e, st1)
              | Inr final_samples \<Rightarrow>
                  (let st2 = st1\<lparr>model_training := True\<rparr>
                   in if length (replay_buffer st2) > 0
                      then (case index_put (put_choice g) (replay_buffer st2) buffer_inds
                                   final_samples of
                              Inl e \<Rightarrow> (Inl e, st2)
                            | Inr buf \<Rightarrow> (Inr final_samples, st2\<lparr>replay_buffer := buf\<rparr>))
                      else (Inr final_samples, st2))))"

subsection \<open>What automatic differentiation guarantees\<close>

text \<open>
  \<^verbatim>\<open>torch.autograd.grad(energy, [x_k])[0]\<close> has the shape of \<^verbatim>\<open>x_k\<close>. The operator is a
  parameter here, so this is a condition on it.
\<close>

definition grad_shape_ok :: "('a, 'p) scorer \<Rightarrow> bool" where
  "grad_shape_ok m \<longleftrightarrow>
     (\<forall>f x gr. autograd m f x = Inr gr \<longrightarrow> map length gr = map length x)"

subsection \<open>Numbers with infinities and NaN\<close>

text \<open>
  A small model of the special values of floating-point numbers, used for concrete runs
  in which the positions stop being finite. Rounding is not modelled: finite values are
  real numbers.
\<close>

datatype fl = Fin real | PInf | NInf | NaN

fun isfinite :: "fl \<Rightarrow> bool" where
  "isfinite (Fin _) = True"
| "isfinite _ = False"

fun sign_inf :: "real \<Rightarrow> fl" where
  "sign_inf a = (if a = 0 then NaN else if 0 < a then PInf else NInf)"

instantiation fl :: "{zero,one,plus,uminus,minus,times,ord}"
begin

definition zero_fl :: fl where "zero_fl = Fin 0"

definition one_fl :: fl where "one_fl = Fin 1"

fun plus_fl :: "fl \<Rightarrow> fl \<Rightarrow> fl" where
  "plus_fl NaN _ = NaN"
| "plus_fl _ NaN = NaN"
| "plus_fl PInf NInf = NaN"
| "plus_fl NInf PInf = NaN"
| "plus_fl PInf _ = PInf"
| "plus_fl _ PInf = PInf"
| "plus_fl NInf _ = NInf"
| "plus_fl _ NInf = NInf"
| "plus_fl (Fin a) (Fin b) = Fin (a + b)"

fun uminus_fl :: "fl \<Rightarrow> fl" where
  "uminus_fl (Fin a) = Fin (- a)"
| "uminus_fl PInf = NInf"
| "uminus_fl NInf = PInf"
| "uminus_fl NaN = NaN"

definition minus_fl :: "fl \<Rightarrow> fl \<Rightarrow> fl" where
  "minus_fl a b = a + (- b)"

fun times_fl :: "fl \<Rightarrow> fl \<Rightarrow> fl" where
  "times_fl NaN _ = NaN"
| "times_fl _ NaN = NaN"
| "times_fl (Fin a) (Fin b) = Fin (a * b)"
| "times_fl (Fin a) PInf = sign_inf a"
| "times_fl (Fin a) NInf = sign_inf (- a)"
| "times_fl PInf (Fin b) = sign_inf b"
| "times_fl NInf (Fin b) = sign_inf (- b)"
| "times_fl PInf PInf = PInf"
| "times_fl NInf NInf = PInf"
| "times_fl PInf NInf = NInf"
| "times_fl NInf PInf = NInf"

fun less_fl :: "fl \<Rightarrow> fl \<Rightarrow> bool" where
  "less_fl (Fin a) (Fin b) = (a < b)"
| "less_fl NInf (Fin _) = True"
| "less_fl NInf PInf = True"
| "less_fl (Fin _) PInf = True"
| "less_fl _ _ = False"

definition less_eq_fl :: "fl \<Rightarrow> fl \<Rightarrow> bool" where
  "less_eq_fl a b = (a < b \<or> (a = b \<and> a \<noteq> NaN))"

instance ..

end

subsection \<open>Concrete runs\<close>

text \<open>
  A class-conditional sampler over the reals with a buffer of four one-element samples
  in two class blocks and a batch of two.
\<close>

definition hp0 :: "real hparams" where
  "hp0 = \<lparr>buffer_size = 4, n_classes = 2, data_shape = [1], smoothing = 0,
          sgld_batch_size = 2, sgld_lr = 1, sgld_std = 1, reinit_freq = 1 / 2, uncond = False\<rparr>"

text \<open>
  Position 0 is reinitialised, position 1 keeps its buffer value; of two values stored to
  one slot the second stays.
\<close>

definition g0 :: "real rng" where
  "g0 = \<lparr>randint_draw = (\<lambda>i. if i = 0 then 1 else 0),
         rand_draw = (\<lambda>i. if i = 0 then 0 else 1),
         init_draw = (\<lambda>i j. 7 + real i),
         randn_draw = (\<lambda>k i j. 1),
         put_choice = (\<lambda>k. 1)\<rparr>"

text \<open>
  The same source, except that both positions draw slot 0; and the same again, except
  that of two values stored to one slot the first stays.
\<close>

definition g_dup :: "real rng" where
  "g_dup = g0\<lparr>randint_draw := (\<lambda>i. 0)\<rparr>"

definition g_dup_first :: "real rng" where
  "g_dup_first = g_dup\<lparr>put_choice := (\<lambda>k. 0)\<rparr>"

text \<open>Both positions draw slot 0 again, and neither is reinitialised.\<close>

definition g_dup_keep :: "real rng" where
  "g_dup_keep = g_dup\<lparr>rand_draw := (\<lambda>i. 1)\<rparr>"

text \<open>
  A differentiation operator for these runs: the symmetric difference quotient with
  step 1 in every element, which is the exact partial derivative where the function is
  quadratic.
\<close>

definition shift :: "real tensor \<Rightarrow> nat \<Rightarrow> nat \<Rightarrow> real \<Rightarrow> real tensor" where
  "shift x i j h = x[i := (x ! i)[j := x ! i ! j + h]]"

definition quotient_grad :: "(real tensor \<Rightarrow> error + real) \<Rightarrow> real tensor \<Rightarrow> error + real tensor" where
  "quotient_grad f x =
     Inr (map (\<lambda>i. map (\<lambda>j. case (f (shift x i j 1), f (shift x i j (- 1))) of
                               (Inr a, Inr b) \<Rightarrow> (a - b) / 2
                             | _ \<Rightarrow> 0)
                    [0..<length (x ! i)])
            [0..<length x])"

text \<open>
  A scoring network whose score of a sample is the sum of the squares of its elements, so
  that the gradient of the summed score at \<open>x\<close> is \<open>2 * x\<close>.
\<close>

definition m0 :: "(real, unit) scorer" where
  "m0 = \<lparr>score = (\<lambda>mode ps x y. Inr (map (\<lambda>r. tsum (map (\<lambda>v. v * v) r)) x)),
         autograd = quotient_grad,
         joint = (\<lambda>mode ps x d. Inr ()),
         smooth_one_hot = (\<lambda>ys n s. map (\<lambda>l. replicate (nat n) s) ys)\<rparr>"

text \<open>
  A scoring network that raises whenever it is called, and one that raises when it is
  called in training mode.
\<close>

definition m_raise :: "(real, unit) scorer" where
  "m_raise = m0\<lparr>score := (\<lambda>mode ps x y. Inl ScoringError)\<rparr>"


definition st0 :: "(real, unit) jem_state" where
  "st0 = \<lparr>model_training = True, model_params = (), replay_buffer = [[0], [5], [6], [9]]\<rparr>"

text \<open>The same state with the network in evaluation mode, and with an empty buffer.\<close>

definition st_eval :: "(real, unit) jem_state" where
  "st_eval = st0\<lparr>model_training := False\<rparr>"

definition st_empty :: "(real, unit) jem_state" where
  "st_empty = st0\<lparr>replay_buffer := []\<rparr>"

text \<open>
  An unconditional sampler over \<open>fl\<close> whose scoring network returns an infinite score, with
  an infinite gradient everywhere.
\<close>

definition hpF :: "fl hparams" where
  "hpF = \<lparr>buffer_size = 2, n_classes = 1, data_shape = [1], smoothing = 0,
          sgld_batch_size = 1, sgld_lr = 1, sgld_std = 1, reinit_freq = 0, uncond = True\<rparr>"

definition gF :: "fl rng" where
  "gF = \<lparr>randint_draw = (\<lambda>i. 0), rand_draw = (\<lambda>i. Fin (1 / 2)),
         init_draw = (\<lambda>i j. Fin 0), randn_draw = (\<lambda>k i j. Fin 0),
         put_choice = (\<lambda>k. 0)\<rparr>"

definition mF :: "(fl, unit) scorer" where
  "mF = \<lparr>score = (\<lambda>mode ps x y. Inr (map (\<lambda>r. PInf) x)),
         autograd = (\<lambda>f x. Inr (map (map (\<lambda>v. PInf)) x)),
         joint = (\<lambda>mode ps x d. Inr ()),
         smooth_one_hot = (\<lambda>ys n s. map (\<lambda>l. replicate (nat n) s) ys)\<rparr>"

definition stF :: "(fl, unit) jem_state" where
  "stF = \<lparr>model_training = True, model_params = (), replay_buffer = [[Fin 3], [Fin 5]]\<rparr>"

section \<open>Properties\<close>

subsection \<open>Auxiliary facts\<close>

lemma init_random_length: "length (init_random g bs shape) = bs"
  by (simp add: init_random_def)

lemma bind_err_Inr:
  "bind_err r f = Inr v \<longleftrightarrow> (\<exists>u. r = Inr u \<and> f u = Inr v)"
  by (cases r) (simp_all add: bind_err_def)

lemma broadcast2_length:
  "broadcast2 f xs ys = Inr zs \<Longrightarrow>
     (length xs = length ys \<or> length xs = 1 \<or> length ys = 1) \<and>
     length zs = (if length xs = length ys then length xs
                  else if length xs = 1 then length ys else length xs)"
  by (auto simp: broadcast2_def split: if_splits)

lemma index_select_Inr:
  "index_select buf inds = Inr rows \<longleftrightarrow>
     list_all (valid_index (length buf)) inds \<and> rows = map (\<lambda>i. buf ! slot (length buf) i) inds"
  by (auto simp: index_select_def)

lemma slot_less: "valid_index n i \<Longrightarrow> slot n i < n"
  by (auto simp: valid_index_def slot_def)

lemma nth_beyond:
  "length xs = length ys \<Longrightarrow> length xs \<le> k \<Longrightarrow> xs ! k = ys ! k"
proof (induction xs arbitrary: ys k)
  case Nil
  then show ?case by simp
next
  case (Cons x xs)
  then obtain y ys' where "ys = y # ys'" by (cases ys) auto
  moreover from Cons.prems obtain k' where "k = Suc k'" by (cases k) auto
  ultimately show ?case using Cons by simp
qed

lemma writers_iff:
  "p \<in> set (writers n inds k) \<longleftrightarrow> p < length inds \<and> slot n (inds ! p) = k"
  by (auto simp: writers_def)

lemma writers_Nil: "k \<notin> slot n ` set inds \<Longrightarrow> writers n inds k = []"
  by (auto simp: writers_def filter_empty_conv)

lemma store_rows_length: "length (store_rows ch buf inds vals) = length buf"
  by (simp add: store_rows_def)

lemma store_rows_other:
  assumes "k \<notin> slot (length buf) ` set inds"
  shows "store_rows ch buf inds vals ! k = buf ! k"
proof (cases "k < length buf")
  case True
  with assms show ?thesis by (simp add: store_rows_def writers_Nil)
next
  case False
  then show ?thesis by (intro nth_beyond) (simp_all add: store_rows_length)
qed

lemma store_rows_nth:
  assumes "k < length buf"
  shows "store_rows ch buf inds vals ! k = buf ! k \<and> writers (length buf) inds k = []
       \<or> (\<exists>q\<in>set (writers (length buf) inds k). store_rows ch buf inds vals ! k = vals ! q)"
proof (cases "writers (length buf) inds k")
  case Nil
  with assms show ?thesis by (simp add: store_rows_def)
next
  case (Cons p ps)
  let ?q = "(p # ps) ! (ch k mod length (p # ps))"
  have "?q \<in> set (p # ps)" by (intro nth_mem) simp
  moreover have "store_rows ch buf inds vals ! k = vals ! ?q"
    using assms Cons by (simp add: store_rows_def)
  ultimately show ?thesis using Cons by auto
qed

lemma store_rows_drawn:
  assumes "p < length inds" "valid_index (length buf) (inds ! p)"
  shows "\<exists>q<length inds. slot (length buf) (inds ! q) = slot (length buf) (inds ! p) \<and>
           store_rows ch buf inds vals ! slot (length buf) (inds ! p) = vals ! q"
proof -
  let ?k = "slot (length buf) (inds ! p)"
  have k: "?k < length buf" using assms(2) by (rule slot_less)
  have "p \<in> set (writers (length buf) inds ?k)"
    using assms(1) by (simp add: writers_iff)
  then have "writers (length buf) inds ?k \<noteq> []" by auto
  with store_rows_nth[OF k, of ch inds vals] obtain q where
    "q \<in> set (writers (length buf) inds ?k)" "store_rows ch buf inds vals ! ?k = vals ! q"
    by auto
  then show ?thesis by (auto simp: writers_iff)
qed

lemma store_rows_set:
  assumes "length vals = length inds"
  shows "set (store_rows ch buf inds vals) \<subseteq> set buf \<union> set vals"
proof
  fix r assume "r \<in> set (store_rows ch buf inds vals)"
  then obtain k where k: "k < length buf" and r: "r = store_rows ch buf inds vals ! k"
    by (auto simp: in_set_conv_nth store_rows_length)
  from store_rows_nth[OF k, of ch inds vals] show "r \<in> set buf \<union> set vals"
  proof
    assume "store_rows ch buf inds vals ! k = buf ! k \<and> writers (length buf) inds k = []"
    with k r show ?thesis by simp
  next
    assume "\<exists>q\<in>set (writers (length buf) inds k). store_rows ch buf inds vals ! k = vals ! q"
    then obtain q where "q < length inds" "store_rows ch buf inds vals ! k = vals ! q"
      by (auto simp: writers_iff)
    with assms r show ?thesis by simp
  qed
qed

lemma choose_random_length: "length (choose_random hp g bs) = bs"
  by (simp add: choose_random_def)

lemma mix_samples_length:
  assumes "mix_samples c r b = Inr s" "length c = length r"
  shows "(length c = length b \<or> length c = 1 \<or> length b = 1) \<and>
         length s = (if length c = length b then length c
                     else if length c = 1 then length b else length c)"
proof -
  from assms(1) obtain a b' where
    a: "broadcast2 (\<lambda>ci r. map (\<lambda>v. ci * v) r) c r = Inr a"
    and b: "broadcast2 (\<lambda>ci b. map (\<lambda>v. (1 - ci) * v) b) c b = Inr b'"
    and s: "broadcast2 (map2 (+)) a b' = Inr s"
    unfolding mix_samples_def bind_err_Inr by blast
  have la: "length a = length c"
    using broadcast2_length[OF a] assms(2) by simp
  note lb = broadcast2_length[OF b]
  note ls = broadcast2_length[OF s]
  show ?thesis
    using la lb ls by (simp split: if_splits)
qed

lemma cond_inds_length:
  assumes "cond_inds hp bsz y inds0 = Inr inds"
  shows "length inds = (case y of None \<Rightarrow> length inds0
           | Some ys \<Rightarrow> if length ys = length inds0 then length inds0
                        else if length ys = 1 then length inds0 else length ys)"
    and "y = None \<or> length (the y) = length inds0 \<or> length (the y) = 1 \<or> length inds0 = 1"
  using assms
  by (auto simp: cond_inds_def bind_err_Inr dest!: broadcast2_length split: option.splits if_splits)

lemma sample_p_0_Inr:
  assumes "sample_p_0 hp g buf bs y = Inr (samples, inds)" "buf \<noteq> []"
  shows "\<exists>bsz. block_size hp buf y = Inr bsz \<and> 0 < bsz
           \<and> cond_inds hp bsz y (map (randint_draw g) [0..<bs]) = Inr inds
           \<and> list_all (valid_index (length buf)) inds
           \<and> mix_samples (choose_random hp g bs) (init_random g bs (data_shape hp))
                (map (\<lambda>i. buf ! slot (length buf) i) inds) = Inr samples"
  using assms
  by (auto simp: sample_p_0_def bind_err_Inr randint_def index_select_Inr split: if_splits)

lemma sample_p_0_lengths:
  assumes "sample_p_0 hp g buf bs y = Inr (samples, inds)" "buf \<noteq> []"
  shows "length samples = length inds" "list_all (valid_index (length buf)) inds"
proof -
  from sample_p_0_Inr[OF assms] obtain bsz where
    c: "cond_inds hp bsz y (map (randint_draw g) [0..<bs]) = Inr inds"
    and v: "list_all (valid_index (length buf)) inds"
    and m: "mix_samples (choose_random hp g bs) (init_random g bs (data_shape hp))
                (map (\<lambda>i. buf ! slot (length buf) i) inds) = Inr samples"
    by blast
  show "list_all (valid_index (length buf)) inds" by (rule v)
  have l: "length inds = bs \<or> bs = 1"
    using cond_inds_length[OF c] by (auto split: option.splits if_splits)
  have "length samples = (if bs = length inds then bs else if bs = 1 then length inds else bs)"
    using mix_samples_length[OF m] by (simp add: choose_random_length init_random_length)
  with l show "length samples = length inds" by auto
qed

subsection \<open>Construction of the buffer\<close>

text \<open>
  Claim C6. In class-conditional mode (\<open>uncond\<close> false) the buffer is constructed exactly
  when \<^verbatim>\<open>buffer_size % n_classes == 0\<close> holds, that is when the class count is not zero
  and divides the capacity; the buffer then has \<open>buffer_size\<close> slots. When the class
  count is not zero and does not divide the capacity the constructor's assertion
  fails; a class count of zero fails in the \<^verbatim>\<open>%\<close> itself.
\<close>

theorem init_replay_buffer_divisible:
  "\<not> uncond hp \<Longrightarrow>
     ((\<exists>buf. init_replay_buffer hp g = Inr buf) \<longleftrightarrow>
        (n_classes hp \<noteq> 0 \<and> int (buffer_size hp) mod n_classes hp = 0))
   \<and> (n_classes hp \<noteq> 0 \<and> int (buffer_size hp) mod n_classes hp \<noteq> 0 \<longrightarrow>
        init_replay_buffer hp g = Inl AssertionError)
   \<and> (n_classes hp = 0 \<longrightarrow> init_replay_buffer hp g = Inl ZeroDivisionError)
   \<and> (\<forall>buf. init_replay_buffer hp g = Inr buf \<longrightarrow> length buf = buffer_size hp)"
  by (auto simp: init_replay_buffer_def init_random_length)

theorem init_replay_buffer_divisible_witness:
  "\<not> uncond hp0 \<and> n_classes hp0 \<noteq> 0 \<and> int (buffer_size hp0) mod n_classes hp0 = 0
   \<and> (\<exists>buf. init_replay_buffer hp0 g0 = Inr buf \<and> length buf = 4)"
  using init_replay_buffer_divisible [of hp0 g0] by (auto simp: hp0_def)

subsection \<open>Slots drawn for a label batch\<close>











subsection \<open>A disabled buffer, and zero steps\<close>

lemma sample_p_0_empty:
  "sample_p_0 hp g [] bs y = Inr (init_random g bs (data_shape hp), [])"
  by (simp add: sample_p_0_def)

lemma index_put_ok:
  "list_all (valid_index (length buf)) inds \<Longrightarrow> length vals = length inds \<Longrightarrow>
     index_put ch buf inds vals = Inr (store_rows ch buf inds vals)"
  by (simp add: index_put_def)

text \<open>
  Claim C7. With an empty replay buffer \<^verbatim>\<open>sample_p_0\<close> returns \<open>bs\<close> samples that are
  all fresh draws of \<^verbatim>\<open>init_random\<close>, and an empty list of slot indices; \<^verbatim>\<open>sample_q\<close>
  runs the loop from such a batch, skips the write-back, and leaves the buffer empty.
\<close>

theorem sample_q_empty_buffer:
  assumes "replay_buffer st = []"
  shows "sample_p_0 hp g (replay_buffer st) bs y = Inr (init_random g bs (data_shape hp), [])
       \<and> length (init_random g bs (data_shape hp)) = bs
       \<and> sample_q hp m g st y n_steps contrast =
           (case sgld n_steps hp m g False (model_params st) y (batch_size hp y) contrast 0
                   (init_random g (batch_size hp y) (data_shape hp)) of
              Inl e \<Rightarrow> (Inl e, st\<lparr>model_training := False\<rparr>)
            | Inr final_samples \<Rightarrow> (Inr final_samples, st\<lparr>model_training := True\<rparr>))
       \<and> replay_buffer (snd (sample_q hp m g st y n_steps contrast)) = []"
  using assms
  by (auto simp: sample_p_0_empty init_random_length sample_q_def Let_def split: sum.splits)

theorem sample_q_empty_buffer_witness:
  "replay_buffer st_empty = []
   \<and> sample_p_0 hp0 g0 (replay_buffer st_empty) 2 None = Inr ([[7], [8]], [])
   \<and> sample_q hp0 m0 g0 st_empty None 1 False = (Inr [[22], [25]], st_empty)"
proof -
  have e: "replay_buffer st_empty = []"
    by (simp add: st_empty_def)
  have i: "init_random g0 2 (data_shape hp0) = [[7], [8]]"
    by code_simp
  have r: "sample_q hp0 m0 g0 st_empty None 1 False = (Inr [[22], [25]], st_empty)"
    by code_simp
  from sample_q_empty_buffer[OF e, of hp0 g0 2 None m0 1 False] e i r show ?thesis
    by simp
qed

text \<open>
  Claim C8. With \<^verbatim>\<open>n_steps = 0\<close>, \<^verbatim>\<open>sample_q\<close> returns exactly the batch that
  \<^verbatim>\<open>sample_p_0\<close> produced, whatever the scoring network is, and the network has gone
  through \<^verbatim>\<open>eval()\<close> and \<^verbatim>\<open>train()\<close>.
\<close>

theorem sample_q_zero_steps:
  assumes "sample_p_0 hp g (replay_buffer st) (batch_size hp y) y = Inr (init_sample, inds)"
  shows "fst (sample_q hp m g st y 0 contrast) = Inr init_sample
       \<and> model_training (snd (sample_q hp m g st y 0 contrast))"
proof (cases "replay_buffer st = []")
  case True
  with assms show ?thesis by (simp add: sample_q_def)
next
  case False
  from sample_p_0_lengths[OF assms False]
  have "index_put (put_choice g) (replay_buffer st) inds init_sample
          = Inr (store_rows (put_choice g) (replay_buffer st) inds init_sample)"
    by (intro index_put_ok) auto
  with assms False show ?thesis by (simp add: sample_q_def)
qed

theorem sample_q_zero_steps_witness:
  "sample_p_0 hp0 g0 (replay_buffer st0) (batch_size hp0 (Some [0, 1])) (Some [0, 1])
     = Inr ([[7], [6]], [1, 2])
   \<and> fst (sample_q hp0 m0 g0 st0 (Some [0, 1]) 0 False) = Inr [[7], [6]]
   \<and> model_training (snd (sample_q hp0 m0 g0 st0 (Some [0, 1]) 0 False))"
proof -
  have a: "sample_p_0 hp0 g0 (replay_buffer st0) (batch_size hp0 (Some [0, 1])) (Some [0, 1])
     = Inr ([[7], [6]], [1, 2])"
    by code_simp
  from sample_q_zero_steps[OF a] a show ?thesis by simp
qed

subsection \<open>The mode of the scoring network\<close>

lemma sample_q_training_after:
  "fst (sample_q hp m g st y n c) = Inr final \<Longrightarrow>
     model_training (snd (sample_q hp m g st y n c))"
  by (auto simp: sample_q_def Let_def split: sum.splits prod.splits if_splits)

text \<open>
  Claim C9. A call of \<^verbatim>\<open>sample_q\<close> that returns normally leaves the scoring network in
  training mode, whatever its mode was before; when the initial samples were produced
  and the loop raises, the exception leaves \<^verbatim>\<open>sample_q\<close> with the network in evaluation
  mode and nothing else changed.
\<close>

theorem sample_q_mode_after:
  "(\<forall>final. fst (sample_q hp m g st y n c) = Inr final \<longrightarrow>
       model_training (snd (sample_q hp m g st y n c)))
   \<and> (\<forall>init_sample inds e.
        sample_p_0 hp g (replay_buffer st) (batch_size hp y) y = Inr (init_sample, inds) \<and>
        sgld n hp m g False (model_params st) y (batch_size hp y) c 0 init_sample = Inl e \<longrightarrow>
        sample_q hp m g st y n c = (Inl e, st\<lparr>model_training := False\<rparr>))"
  by (auto simp: sample_q_def Let_def split: sum.splits prod.splits if_splits)

theorem sample_q_mode_after_witness:
  "fst (sample_q hp0 m0 g0 st_eval (Some [0, 1]) 1 False) = Inr [[22], [19]]
   \<and> \<not> model_training st_eval
   \<and> model_training (snd (sample_q hp0 m0 g0 st_eval (Some [0, 1]) 1 False))
   \<and> sample_p_0 hp0 g0 (replay_buffer st0) (batch_size hp0 (Some [0, 1])) (Some [0, 1])
       = Inr ([[7], [6]], [1, 2])
   \<and> sgld 1 hp0 m_raise g0 False (model_params st0) (Some [0, 1])
        (batch_size hp0 (Some [0, 1])) False 0 [[7], [6]] = Inl ScoringError
   \<and> model_training st0
   \<and> sample_q hp0 m_raise g0 st0 (Some [0, 1]) 1 False = (Inl ScoringError, st_eval)"
proof -
  have a: "fst (sample_q hp0 m0 g0 st_eval (Some [0, 1]) 1 False) = Inr [[22], [19]]"
    by code_simp
  have b: "sample_p_0 hp0 g0 (replay_buffer st0) (batch_size hp0 (Some [0, 1])) (Some [0, 1])
       = Inr ([[7], [6]], [1, 2])"
    by code_simp
  have c: "sgld 1 hp0 m_raise g0 False (model_params st0) (Some [0, 1])
        (batch_size hp0 (Some [0, 1])) False 0 [[7], [6]] = Inl ScoringError"
    by code_simp
  have d: "\<not> model_training st_eval" "model_training st0"
    "st0\<lparr>model_training := False\<rparr> = st_eval"
    by (simp_all add: st_eval_def st0_def)
  from sample_q_mode_after[of hp0 m0 g0 st_eval "Some [0, 1]" 1 False]
       sample_q_mode_after[of hp0 m_raise g0 st0 "Some [0, 1]" 1 False] a b c d
  show ?thesis by simp
qed

subsection \<open>The shape and the steps of the loop\<close>

lemma t_scale_shape: "map length (t_scale c t) = map length t"
  by (simp add: t_scale_def)

lemma t_add_shape:
  "map length a = map length b \<Longrightarrow> map length (t_add a b) = map length a"
proof (induction a arbitrary: b)
  case Nil
  then show ?case by (simp add: t_add_def)
next
  case (Cons r a)
  then obtain s b' where "b = s # b'" by (cases b) auto
  with Cons show ?case by (simp add: t_add_def)
qed

lemma randn_like_shape: "map length (randn_like g k x) = map length x"
proof -
  have "map length (randn_like g k x) = map length (map ((!) x) [0..<length x])"
    unfolding randn_like_def by (simp add: o_def)
  then show ?thesis by (simp only: map_nth)
qed

lemma sgld_update_shape:
  assumes "map length gr = map length x"
  shows "map length (sgld_update hp g k x gr) = map length x"
proof -
  have "map length (t_scale (sgld_lr hp) gr) = map length (t_scale (sgld_std hp) (randn_like g k x))"
    using assms by (simp add: t_scale_shape randn_like_shape)
  then have "map length (t_add (t_scale (sgld_lr hp) gr) (t_scale (sgld_std hp) (randn_like g k x)))
           = map length x"
    using assms by (simp add: t_add_shape t_scale_shape)
  then show ?thesis
    unfolding sgld_update_def by (simp add: t_add_shape)
qed

lemma t_add_nth:
  "map length a = map length b \<Longrightarrow> i < length a \<Longrightarrow> j < length (a ! i) \<Longrightarrow>
     t_add a b ! i ! j = a ! i ! j + b ! i ! j"
proof -
  assume s: "map length a = map length b" and i: "i < length a" and j: "j < length (a ! i)"
  from s have l: "length a = length b" by (metis length_map)
  from s i l have "length (a ! i) = length (b ! i)"
    by (metis nth_map)
  with i j l show ?thesis by (simp add: t_add_def)
qed

lemma sgld_update_nth:
  assumes s: "map length gr = map length x" and i: "i < length x" and j: "j < length (x ! i)"
  shows "sgld_update hp g k x gr ! i ! j
           = x ! i ! j + (sgld_lr hp * gr ! i ! j + sgld_std hp * randn_draw g k i j)"
proof -
  let ?a = "t_scale (sgld_lr hp) gr" and ?b = "t_scale (sgld_std hp) (randn_like g k x)"
  have lg: "length gr = length x" using s by (metis length_map)
  have lgi: "length (gr ! i) = length (x ! i)" using s i lg by (metis nth_map)
  have ab: "map length ?a = map length ?b"
    using s by (simp add: t_scale_shape randn_like_shape)
  have xa: "map length x = map length (t_add ?a ?b)"
    using ab s by (simp add: t_add_shape t_scale_shape)
  have ia: "i < length ?a" "j < length (?a ! i)"
    using i j lg lgi by (simp_all add: t_scale_def)
  have "sgld_update hp g k x gr ! i ! j = x ! i ! j + t_add ?a ?b ! i ! j"
    unfolding sgld_update_def using xa i j by (rule t_add_nth)
  also have "t_add ?a ?b ! i ! j = ?a ! i ! j + ?b ! i ! j"
    using ab ia by (rule t_add_nth)
  also have "?a ! i ! j = sgld_lr hp * gr ! i ! j"
    using i j lg lgi by (simp add: t_scale_def)
  also have "?b ! i ! j = sgld_std hp * randn_draw g k i j"
    using i j by (simp add: t_scale_def randn_like_def)
  finally show ?thesis .
qed

text \<open>
  A step returns a gradient only without \<^verbatim>\<open>contrast\<close>, and then the gradient is that of
  the summed score, taken with respect to the positions at the positions.
\<close>

lemma f_prime_Inr:
  "f_prime hp m mode ps y bs c x = Inr gr \<longleftrightarrow>
     \<not> c \<and> (\<exists>e. energy m mode ps y x = Inr e) \<and> autograd m (energy m mode ps y) x = Inr gr"
  by (auto simp: f_prime_def bind_err_Inr)

lemma f_prime_shape:
  "grad_shape_ok m \<Longrightarrow> f_prime hp m mode ps y bs c x = Inr gr \<Longrightarrow> map length gr = map length x"
  by (auto simp: grad_shape_ok_def f_prime_Inr)

lemma sgld_shape:
  "grad_shape_ok m \<Longrightarrow> sgld n hp m g mode ps y bs c k x = Inr x' \<Longrightarrow>
     map length x' = map length x"
proof (induction n arbitrary: k x)
  case 0
  then show ?case by simp
next
  case (Suc n)
  from Suc.prems(2) obtain gr where
    gr: "f_prime hp m mode ps y bs c x = Inr gr"
    and r: "sgld n hp m g mode ps y bs c (Suc k) (sgld_update hp g k x gr) = Inr x'"
    by (auto split: sum.splits)
  from Suc.IH[OF Suc.prems(1) r] have "map length x' = map length (sgld_update hp g k x gr)" .
  also have "\<dots> = map length x"
    using f_prime_shape[OF Suc.prems(1) gr] by (rule sgld_update_shape)
  finally show ?case .
qed

text \<open>
  The loop returns \<open>x'\<close> from \<open>x\<close> exactly when there is a sequence of \<open>n + 1\<close> batches
  from \<open>x\<close> to \<open>x'\<close> in which each batch but the first is the update of the one before, with
  the gradient taken there and the noise of that step.
\<close>

lemma sgld_trajectory:
  "sgld n hp m g mode ps y bs c k x = Inr x' \<longleftrightarrow>
     (\<exists>xs. length xs = Suc n \<and> xs ! 0 = x \<and> xs ! n = x' \<and>
        (\<forall>t<n. \<exists>gr. f_prime hp m mode ps y bs c (xs ! t) = Inr gr \<and>
                  xs ! Suc t = sgld_update hp g (k + t) (xs ! t) gr))"
proof (induction n arbitrary: k x)
  case 0
  show ?case
  proof
    assume "sgld 0 hp m g mode ps y bs c k x = Inr x'"
    then have "length [x] = Suc 0 \<and> [x] ! 0 = x \<and> [x] ! 0 = x'" by simp
    then show "\<exists>xs. length xs = Suc 0 \<and> xs ! 0 = x \<and> xs ! 0 = x' \<and>
        (\<forall>t<0. \<exists>gr. f_prime hp m mode ps y bs c (xs ! t) = Inr gr \<and>
                  xs ! Suc t = sgld_update hp g (k + t) (xs ! t) gr)"
      by blast
  next
    assume "\<exists>xs. length xs = Suc 0 \<and> xs ! 0 = x \<and> xs ! 0 = x' \<and>
        (\<forall>t<0. \<exists>gr. f_prime hp m mode ps y bs c (xs ! t) = Inr gr \<and>
                  xs ! Suc t = sgld_update hp g (k + t) (xs ! t) gr)"
    then show "sgld 0 hp m g mode ps y bs c k x = Inr x'" by auto
  qed
next
  case (Suc n)
  show ?case
  proof
    assume "sgld (Suc n) hp m g mode ps y bs c k x = Inr x'"
    then obtain gr where
      gr: "f_prime hp m mode ps y bs c x = Inr gr"
      and r: "sgld n hp m g mode ps y bs c (Suc k) (sgld_update hp g k x gr) = Inr x'"
      by (auto split: sum.splits)
    from r Suc.IH obtain xs where
      xs: "length xs = Suc n" "xs ! 0 = sgld_update hp g k x gr" "xs ! n = x'"
      "\<forall>t<n. \<exists>gr. f_prime hp m mode ps y bs c (xs ! t) = Inr gr \<and>
                  xs ! Suc t = sgld_update hp g (Suc k + t) (xs ! t) gr"
      by blast
    have "\<exists>gr'. f_prime hp m mode ps y bs c ((x # xs) ! t) = Inr gr' \<and>
                  (x # xs) ! Suc t = sgld_update hp g (k + t) ((x # xs) ! t) gr'"
      if "t < Suc n" for t
    proof (cases t)
      case 0
      with gr xs(2) show ?thesis by simp
    next
      case (Suc t')
      with that xs(4) show ?thesis by simp
    qed
    with xs show "\<exists>xs. length xs = Suc (Suc n) \<and> xs ! 0 = x \<and> xs ! Suc n = x' \<and>
        (\<forall>t<Suc n. \<exists>gr. f_prime hp m mode ps y bs c (xs ! t) = Inr gr \<and>
                  xs ! Suc t = sgld_update hp g (k + t) (xs ! t) gr)"
      by (intro exI[of _ "x # xs"]) simp
  next
    assume "\<exists>xs. length xs = Suc (Suc n) \<and> xs ! 0 = x \<and> xs ! Suc n = x' \<and>
        (\<forall>t<Suc n. \<exists>gr. f_prime hp m mode ps y bs c (xs ! t) = Inr gr \<and>
                  xs ! Suc t = sgld_update hp g (k + t) (xs ! t) gr)"
    then obtain xs where
      xs: "length xs = Suc (Suc n)" "xs ! 0 = x" "xs ! Suc n = x'"
      and st: "\<forall>t<Suc n. \<exists>gr. f_prime hp m mode ps y bs c (xs ! t) = Inr gr \<and>
                  xs ! Suc t = sgld_update hp g (k + t) (xs ! t) gr"
      by blast
    from xs(1,2) obtain zs where zs: "xs = x # zs" "length zs = Suc n"
      by (cases xs) auto
    from st zs obtain gr where
      gr: "f_prime hp m mode ps y bs c x = Inr gr" "zs ! 0 = sgld_update hp g k x gr"
      by fastforce
    have "\<exists>gr. f_prime hp m mode ps y bs c (zs ! t) = Inr gr \<and>
                  zs ! Suc t = sgld_update hp g (Suc k + t) (zs ! t) gr" if "t < n" for t
      using st[rule_format, of "Suc t"] that zs by simp
    with zs gr xs(3) have "sgld n hp m g mode ps y bs c (Suc k) (sgld_update hp g k x gr) = Inr x'"
      by (subst Suc.IH) (intro exI[of _ zs], simp)
    with gr show "sgld (Suc n) hp m g mode ps y bs c k x = Inr x'" by simp
  qed
qed

subsection \<open>The steps of \<^verbatim>\<open>sample_q\<close>\<close>

lemma sample_q_Inr:
  assumes "sample_p_0 hp g (replay_buffer st) (batch_size hp y) y = Inr (init_sample, inds)"
    and "fst (sample_q hp m g st y n c) = Inr final"
  shows "sgld n hp m g False (model_params st) y (batch_size hp y) c 0 init_sample = Inr final"
    and "\<exists>buf. (if replay_buffer st = [] then buf = []
                else index_put (put_choice g) (replay_buffer st) inds final = Inr buf)
           \<and> snd (sample_q hp m g st y n c) = st\<lparr>model_training := True, replay_buffer := buf\<rparr>"
  using assms by (auto simp: sample_q_def Let_def split: sum.splits if_splits)

lemma sample_q_final_length:
  assumes p0: "sample_p_0 hp g (replay_buffer st) (batch_size hp y) y = Inr (init_sample, inds)"
    and ne: "replay_buffer st \<noteq> []"
    and sg: "sgld n hp m g False (model_params st) y (batch_size hp y) c 0 init_sample = Inr final"
    and gs: "grad_shape_ok m"
  shows "length final = length inds"
proof -
  have "length final = length init_sample"
    using sgld_shape[OF gs sg] by (metis length_map)
  with sample_p_0_lengths(1)[OF p0 ne] show ?thesis by simp
qed

text \<open>
  With a gradient of the shape of the positions the write-back never raises, and
  \<^verbatim>\<open>sample_q\<close> is the sequence of its three stages.
\<close>

lemma sample_q_stages:
  assumes gs: "grad_shape_ok m"
  shows "sample_q hp m g st y n c =
     (case sample_p_0 hp g (replay_buffer st) (batch_size hp y) y of
        Inl e \<Rightarrow> (Inl e, st\<lparr>model_training := False\<rparr>)
      | Inr (init_sample, inds) \<Rightarrow>
          (case sgld n hp m g False (model_params st) y (batch_size hp y) c 0 init_sample of
             Inl e \<Rightarrow> (Inl e, st\<lparr>model_training := False\<rparr>)
           | Inr final \<Rightarrow>
               (Inr final,
                st\<lparr>model_training := True,
                   replay_buffer :=
                     (if replay_buffer st = [] then []
                      else store_rows (put_choice g) (replay_buffer st) inds final)\<rparr>)))"
proof (cases "sample_p_0 hp g (replay_buffer st) (batch_size hp y) y")
  case (Inl e)
  then show ?thesis by (simp add: sample_q_def)
next
  case (Inr r)
  obtain init_sample inds where r: "r = (init_sample, inds)" by (cases r)
  note p0 = Inr[unfolded r]
  show ?thesis
  proof (cases "sgld n hp m g False (model_params st) y (batch_size hp y) c 0 init_sample")
    case (Inl e)
    with p0 show ?thesis by (simp add: sample_q_def)
  next
    case sg: (Inr final)
    show ?thesis
    proof (cases "replay_buffer st = []")
      case True
      with p0 sg show ?thesis by (simp add: sample_q_def)
    next
      case False
      have "index_put (put_choice g) (replay_buffer st) inds final
              = Inr (store_rows (put_choice g) (replay_buffer st) inds final)"
        using sample_p_0_lengths(2)[OF p0 False] sample_q_final_length[OF p0 False sg gs]
        by (intro index_put_ok)
      with p0 sg False show ?thesis by (simp add: sample_q_def)
    qed
  qed
qed

subsection \<open>The gradients of the concrete runs have the shape of the positions\<close>

lemma quotient_grad_shape: "quotient_grad f x = Inr gr \<Longrightarrow> map length gr = map length x"
proof -
  assume "quotient_grad f x = Inr gr"
  then have "map length gr = map length (map ((!) x) [0..<length x])"
    unfolding quotient_grad_def by (auto simp: o_def)
  then show ?thesis by (simp only: map_nth)
qed

lemma m0_shape: "grad_shape_ok m0"
  by (auto simp: grad_shape_ok_def m0_def dest: quotient_grad_shape)



lemma mF_shape: "grad_shape_ok mF"
  by (auto simp: grad_shape_ok_def mF_def)

text \<open>
  Claim C2. A call of \<^verbatim>\<open>sample_q\<close> that returns has made exactly \<^verbatim>\<open>n_steps\<close> updates, from
  the batch of \<^verbatim>\<open>sample_p_0\<close> to the batch it returns, and none of them with \<^verbatim>\<open>contrast\<close>.
  Update \<open>t\<close> computes the summed score at the current positions and takes its gradient
  with respect to the positions there, the network being in evaluation mode and its
  parameters those before the call; it adds to every element \<^verbatim>\<open>sgld_lr\<close> times the
  gradient's element plus \<^verbatim>\<open>sgld_std\<close> times that element's own noise draw of step \<open>t\<close>.
  The network's parameters are read at every step and written at none.
\<close>

theorem sample_q_langevin_steps:
  assumes p0: "sample_p_0 hp g (replay_buffer st) (batch_size hp y) y = Inr (init_sample, inds)"
    and ok: "fst (sample_q hp m g st y n_steps contrast) = Inr final"
  shows "(contrast \<longrightarrow> n_steps = 0)
       \<and> (\<exists>xs. length xs = Suc n_steps \<and> xs ! 0 = init_sample \<and> xs ! n_steps = final \<and>
           (\<forall>t<n_steps. \<exists>e gr.
              energy m False (model_params st) y (xs ! t) = Inr e \<and>
              autograd m (energy m False (model_params st) y) (xs ! t) = Inr gr \<and>
              xs ! Suc t = sgld_update hp g t (xs ! t) gr \<and>
              (map length gr = map length (xs ! t) \<longrightarrow>
                 (\<forall>i<length (xs ! t). \<forall>j<length (xs ! t ! i).
                    xs ! Suc t ! i ! j
                      = xs ! t ! i ! j + (sgld_lr hp * gr ! i ! j + sgld_std hp * randn_draw g t i j)))))
       \<and> model_params (snd (sample_q hp m g st y n_steps contrast)) = model_params st"
proof -
  note sg = sample_q_Inr(1)[OF p0 ok]
  have c: "n_steps = 0" if "contrast"
  proof (cases n_steps)
    case 0
    then show ?thesis .
  next
    case (Suc k)
    with sg that show ?thesis
      by (auto simp: f_prime_Inr split: sum.splits)
  qed
  from sg obtain xs where
    xs: "length xs = Suc n_steps" "xs ! 0 = init_sample" "xs ! n_steps = final"
    and st: "\<forall>t<n_steps. \<exists>gr.
              f_prime hp m False (model_params st) y (batch_size hp y) contrast (xs ! t) = Inr gr \<and>
              xs ! Suc t = sgld_update hp g (0 + t) (xs ! t) gr"
    unfolding sgld_trajectory by blast
  have "\<exists>e gr.
              energy m False (model_params st) y (xs ! t) = Inr e \<and>
              autograd m (energy m False (model_params st) y) (xs ! t) = Inr gr \<and>
              xs ! Suc t = sgld_update hp g t (xs ! t) gr \<and>
              (map length gr = map length (xs ! t) \<longrightarrow>
                 (\<forall>i<length (xs ! t). \<forall>j<length (xs ! t ! i).
                    xs ! Suc t ! i ! j
                      = xs ! t ! i ! j + (sgld_lr hp * gr ! i ! j + sgld_std hp * randn_draw g t i j)))"
    if "t < n_steps" for t
  proof -
    from st that obtain gr where
      gr: "f_prime hp m False (model_params st) y (batch_size hp y) contrast (xs ! t) = Inr gr"
      and x: "xs ! Suc t = sgld_update hp g t (xs ! t) gr"
      by auto
    from gr obtain e where
      e: "energy m False (model_params st) y (xs ! t) = Inr e"
      and a: "autograd m (energy m False (model_params st) y) (xs ! t) = Inr gr"
      unfolding f_prime_Inr by blast
    from e a x show ?thesis by (auto simp: sgld_update_nth)
  qed
  moreover from sample_q_Inr(2)[OF p0 ok]
  have "model_params (snd (sample_q hp m g st y n_steps contrast)) = model_params st"
    by auto
  ultimately show ?thesis using xs c by blast
qed

theorem sample_q_langevin_steps_witness:
  "sample_p_0 hp0 g0 (replay_buffer st0) (batch_size hp0 (Some [0, 1])) (Some [0, 1])
     = Inr ([[7], [6]], [1, 2])
   \<and> fst (sample_q hp0 m0 g0 st0 (Some [0, 1]) 2 False) = Inr [[67], [58]]
   \<and> energy m0 False (model_params st0) (Some [0, 1]) [[7], [6]] = Inr 85
   \<and> autograd m0 (energy m0 False (model_params st0) (Some [0, 1])) [[7], [6]]
       = Inr [[14], [12]]
   \<and> (\<exists>xs. length xs = 3 \<and> xs ! 0 = [[7], [6]] \<and> xs ! 1 = [[22], [19]]
          \<and> xs ! 2 = [[67], [58 :: real]])
   \<and> model_params (snd (sample_q hp0 m0 g0 st0 (Some [0, 1]) 2 False)) = model_params st0"
proof -
  have a: "sample_p_0 hp0 g0 (replay_buffer st0) (batch_size hp0 (Some [0, 1])) (Some [0, 1])
     = Inr ([[7], [6]], [1, 2])"
    by code_simp
  have b: "fst (sample_q hp0 m0 g0 st0 (Some [0, 1]) 2 False) = Inr [[67], [58]]"
    by code_simp
  have e: "energy m0 False (model_params st0) (Some [0, 1]) [[7], [6]] = Inr 85"
    by code_simp
  have gr0: "autograd m0 (energy m0 False (model_params st0) (Some [0, 1])) [[7], [6]]
       = Inr [[14], [12]]"
    by code_simp
  have u: "sgld_update hp0 g0 0 [[7], [6]] [[14], [12]] = [[22], [19]]"
    by code_simp
  from sample_q_langevin_steps[OF a b] obtain xs where
    xs: "length xs = Suc 2" "xs ! 0 = [[7], [6]]" "xs ! 2 = [[67], [58]]"
    and st: "\<forall>t<2. \<exists>e gr.
        energy m0 False (model_params st0) (Some [0, 1]) (xs ! t) = Inr e \<and>
        autograd m0 (energy m0 False (model_params st0) (Some [0, 1])) (xs ! t) = Inr gr \<and>
        xs ! Suc t = sgld_update hp0 g0 t (xs ! t) gr"
    and ps: "model_params (snd (sample_q hp0 m0 g0 st0 (Some [0, 1]) 2 False)) = model_params st0"
    by blast
  from st[rule_format, of 0] xs(2) obtain gr where
    "autograd m0 (energy m0 False (model_params st0) (Some [0, 1])) [[7], [6]] = Inr gr"
    and x1: "xs ! Suc 0 = sgld_update hp0 g0 0 [[7], [6]] gr"
    by auto
  with gr0 u have "xs ! 1 = [[22], [19]]"
    by simp
  with xs a b e gr0 ps show ?thesis by auto
qed

subsection \<open>The mode during the loop and after it\<close>




subsection \<open>Reading the buffer back\<close>

text \<open>
  Claim C3 says that reading the buffer at the drawn slot indices gives the returned
  batch also when an index was drawn twice. It does not: here both positions draw slot
  0 and the returned batch holds 7 and 0. Slot 0 holds one of them, 0 when the second of
  the stored values stays and 7 when the first does, and the read-back differs from the
  returned batch either way.
\<close>

theorem sample_q_round_trip_counterexample:
  "sample_p_0 hp0 g_dup (replay_buffer st0) (batch_size hp0 None) None = Inr ([[7], [0]], [0, 0])
   \<and> fst (sample_q hp0 m0 g_dup st0 None 0 False) = Inr [[7], [0]]
   \<and> index_select (replay_buffer (snd (sample_q hp0 m0 g_dup st0 None 0 False))) [0, 0]
       = Inr [[0], [0]]
   \<and> index_select (replay_buffer (snd (sample_q hp0 m0 g_dup st0 None 0 False))) [0, 0]
       \<noteq> fst (sample_q hp0 m0 g_dup st0 None 0 False)
   \<and> sample_p_0 hp0 g_dup_first (replay_buffer st0) (batch_size hp0 None) None
       = Inr ([[7], [0]], [0, 0])
   \<and> fst (sample_q hp0 m0 g_dup_first st0 None 0 False) = Inr [[7], [0]]
   \<and> index_select (replay_buffer (snd (sample_q hp0 m0 g_dup_first st0 None 0 False))) [0, 0]
       = Inr [[7], [7]]
   \<and> index_select (replay_buffer (snd (sample_q hp0 m0 g_dup_first st0 None 0 False))) [0, 0]
       \<noteq> fst (sample_q hp0 m0 g_dup_first st0 None 0 False)"
  by code_simp

text \<open>
  Claim C3, amended. After \<^verbatim>\<open>sample_q\<close> has returned from a call with a non-empty buffer,
  reading the buffer at the drawn slot indices gives exactly the returned batch if and
  only if any two positions that drew the same slot hold the same sample in the returned
  batch, as they do when no slot is drawn twice. Position by position: the read-back
  equals the returned sample at every position whose sample is that of all positions
  that drew its slot, whatever happens at the other positions. The gradient has the
  shape of the positions.
\<close>

theorem sample_q_round_trip:
  assumes p0: "sample_p_0 hp g (replay_buffer st) (batch_size hp y) y = Inr (init_sample, inds)"
    and ne: "replay_buffer st \<noteq> []"
    and ok: "fst (sample_q hp m g st y n_steps contrast) = Inr final"
    and gs: "grad_shape_ok m"
  shows "(\<exists>rows. index_select (replay_buffer (snd (sample_q hp m g st y n_steps contrast))) inds
                   = Inr rows
            \<and> length rows = length final
            \<and> (\<forall>p<length inds.
                 (\<forall>q<length inds.
                    slot (length (replay_buffer st)) (inds ! q)
                      = slot (length (replay_buffer st)) (inds ! p) \<longrightarrow> final ! q = final ! p)
                 \<longrightarrow> rows ! p = final ! p))
       \<and> (index_select (replay_buffer (snd (sample_q hp m g st y n_steps contrast))) inds
            = Inr final
          \<longleftrightarrow> (\<forall>p<length inds. \<forall>q<length inds.
                 slot (length (replay_buffer st)) (inds ! q)
                   = slot (length (replay_buffer st)) (inds ! p) \<longrightarrow> final ! q = final ! p))"
proof -
  let ?buf = "replay_buffer st"
  let ?buf' = "replay_buffer (snd (sample_q hp m g st y n_steps contrast))"
  let ?n = "length ?buf"
  let ?rows = "map (\<lambda>i. ?buf' ! slot ?n i) inds"
  have v: "list_all (valid_index ?n) inds"
    by (rule sample_p_0_lengths(2)[OF p0 ne])
  have l: "length final = length inds"
    by (rule sample_q_final_length[OF p0 ne sample_q_Inr(1)[OF p0 ok] gs])
  from sample_q_Inr(2)[OF p0 ok] ne v l
  have s: "?buf' = store_rows (put_choice g) ?buf inds final"
    by (auto simp: index_put_ok)
  have n: "length ?buf' = ?n"
    unfolding s by (rule store_rows_length)
  have sel: "index_select ?buf' inds = Inr ?rows"
    using v by (simp add: index_select_def n)
  have same: "\<exists>q<length inds. slot ?n (inds ! q) = slot ?n (inds ! p) \<and> ?rows ! p = final ! q"
    if "p < length inds" for p
  proof -
    from v that have "valid_index ?n (inds ! p)" by (simp add: list_all_length)
    from store_rows_drawn[OF that this, of "put_choice g" final] that show ?thesis
      unfolding s by simp
  qed
  have pos: "?rows ! p = final ! p"
    if "p < length inds"
      and "\<forall>q<length inds. slot ?n (inds ! q) = slot ?n (inds ! p) \<longrightarrow> final ! q = final ! p"
    for p
    using same[OF that(1)] that(2) by auto
  have "?rows = final" if
    a: "\<forall>p<length inds. \<forall>q<length inds.
          slot ?n (inds ! q) = slot ?n (inds ! p) \<longrightarrow> final ! q = final ! p"
  proof (rule nth_equalityI)
    show "length ?rows = length final" using l by simp
  next
    fix p assume "p < length ?rows"
    then have p: "p < length inds" by simp
    from a p have "\<forall>q<length inds. slot ?n (inds ! q) = slot ?n (inds ! p) \<longrightarrow> final ! q = final ! p"
      by blast
    with p show "?rows ! p = final ! p" by (rule pos)
  qed
  moreover have "final ! q = final ! p" if r: "?rows = final"
    and pq: "p < length inds" "q < length inds" "slot ?n (inds ! q) = slot ?n (inds ! p)" for p q
  proof -
    have "final ! q = ?rows ! q" using r by simp
    also have "\<dots> = ?rows ! p" using pq by simp
    also have "\<dots> = final ! p" using r by simp
    finally show ?thesis .
  qed
  ultimately have iff: "index_select ?buf' inds = Inr final
          \<longleftrightarrow> (\<forall>p<length inds. \<forall>q<length inds.
                 slot ?n (inds ! q) = slot ?n (inds ! p) \<longrightarrow> final ! q = final ! p)"
    unfolding sel by blast
  have "length ?rows = length final" using l by simp
  with sel pos iff show ?thesis by blast
qed

theorem sample_q_round_trip_witness:
  "sample_p_0 hp0 g0 (replay_buffer st0) (batch_size hp0 (Some [0, 1])) (Some [0, 1])
     = Inr ([[7], [6]], [1, 2])
   \<and> replay_buffer st0 \<noteq> []
   \<and> fst (sample_q hp0 m0 g0 st0 (Some [0, 1]) 2 False) = Inr [[67], [58]]
   \<and> grad_shape_ok m0
   \<and> slot (length (replay_buffer st0)) ([1, 2] ! 0) \<noteq> slot (length (replay_buffer st0)) ([1, 2] ! 1)
   \<and> index_select (replay_buffer (snd (sample_q hp0 m0 g0 st0 (Some [0, 1]) 2 False))) [1, 2]
       = Inr [[67], [58]]
   \<and> sample_p_0 hp0 g_dup_keep (replay_buffer st0) (batch_size hp0 None) None
       = Inr ([[0], [0]], [0, 0])
   \<and> fst (sample_q hp0 m0 g_dup_keep st0 None 0 False) = Inr [[0], [0]]
   \<and> index_select (replay_buffer (snd (sample_q hp0 m0 g_dup_keep st0 None 0 False))) [0, 0]
       = Inr [[0], [0]]"
proof -
  have a: "sample_p_0 hp0 g0 (replay_buffer st0) (batch_size hp0 (Some [0, 1])) (Some [0, 1])
     = Inr ([[7], [6]], [1, 2])"
    by code_simp
  have b: "fst (sample_q hp0 m0 g0 st0 (Some [0, 1]) 2 False) = Inr [[67], [58]]"
    by code_simp
  have c: "replay_buffer st0 \<noteq> []"
    by (simp add: st0_def)
  have d: "slot (length (replay_buffer st0)) ([1, 2] ! 0)
             \<noteq> slot (length (replay_buffer st0)) ([1, 2] ! 1)"
    by (simp add: st0_def slot_def)
  have a': "sample_p_0 hp0 g_dup_keep (replay_buffer st0) (batch_size hp0 None) None
       = Inr ([[0], [0]], [0, 0])"
    by code_simp
  have b': "fst (sample_q hp0 m0 g_dup_keep st0 None 0 False) = Inr [[0], [0]]"
    by code_simp
  have 1: "index_select (replay_buffer (snd (sample_q hp0 m0 g0 st0 (Some [0, 1]) 2 False)))
             [1, 2] = Inr [[67], [58]]"
    unfolding sample_q_round_trip[OF a c b m0_shape, THEN conjunct2]
    using d by (auto simp: less_Suc_eq numeral_2_eq_2)
  have 2: "index_select (replay_buffer (snd (sample_q hp0 m0 g_dup_keep st0 None 0 False)))
             [0, 0] = Inr [[0], [0]]"
    unfolding sample_q_round_trip[OF a' c b' m0_shape, THEN conjunct2]
    by (auto simp: less_Suc_eq numeral_2_eq_2)
  from a b c d a' b' m0_shape 1 2 show ?thesis by blast
qed

subsection \<open>What the write-back leaves alone\<close>

lemma broadcast2_set:
  assumes "broadcast2 f xs ys = Inr zs" "z \<in> set zs"
  shows "\<exists>x\<in>set xs. \<exists>y\<in>set ys. z = f x y"
proof -
  consider (eq) "zs = map2 f xs ys"
    | (l) "length xs = 1" "zs = map (f (hd xs)) ys"
    | (r) "length ys = 1" "zs = map (\<lambda>x. f x (hd ys)) xs"
    using assms(1) by (auto simp: broadcast2_def split: if_splits)
  then show ?thesis
  proof cases
    case eq
    with assms(2) obtain x y where xy: "(x, y) \<in> set (zip xs ys)" and z: "z = f x y"
      by auto
    from xy have "x \<in> set xs" by (rule set_zip_leftD)
    moreover from xy have "y \<in> set ys" by (rule set_zip_rightD)
    ultimately show ?thesis using z by blast
  next
    case l
    then have "hd xs \<in> set xs" by (cases xs) auto
    with l assms(2) show ?thesis by auto
  next
    case r
    then have "hd ys \<in> set ys" by (cases ys) auto
    with r assms(2) show ?thesis by auto
  qed
qed

lemma mix_samples_rows:
  assumes "mix_samples c r b = Inr s"
    and "\<forall>x\<in>set r. length x = d" and "\<forall>x\<in>set b. length x = d"
  shows "\<forall>x\<in>set s. length x = d"
proof
  fix x assume x: "x \<in> set s"
  from assms(1) obtain a b' where
    a: "broadcast2 (\<lambda>ci r. map (\<lambda>v. ci * v) r) c r = Inr a"
    and b: "broadcast2 (\<lambda>ci b. map (\<lambda>v. (1 - ci) * v) b) c b = Inr b'"
    and s: "broadcast2 (map2 (+)) a b' = Inr s"
    unfolding mix_samples_def bind_err_Inr by blast
  from broadcast2_set[OF s x] obtain u w where
    uw: "u \<in> set a" "w \<in> set b'" "x = map2 (+) u w" by blast
  from broadcast2_set[OF a uw(1)] assms(2) have "length u = d" by auto
  moreover from broadcast2_set[OF b uw(2)] assms(3) have "length w = d" by auto
  ultimately show "length x = d" using uw(3) by simp
qed

lemma init_random_rows: "\<forall>x\<in>set (init_random g bs shape). length x = prod_list shape"
  by (auto simp: init_random_def)

lemma sample_p_0_rows:
  assumes p0: "sample_p_0 hp g buf bs y = Inr (init_sample, inds)"
    and ne: "buf \<noteq> []"
    and rows: "\<forall>r\<in>set buf. length r = prod_list (data_shape hp)"
  shows "\<forall>r\<in>set init_sample. length r = prod_list (data_shape hp)"
proof -
  from sample_p_0_Inr[OF p0 ne] have
    v: "list_all (valid_index (length buf)) inds"
    and m: "mix_samples (choose_random hp g bs) (init_random g bs (data_shape hp))
                (map (\<lambda>i. buf ! slot (length buf) i) inds) = Inr init_sample"
    by auto
  have "\<forall>x\<in>set (map (\<lambda>i. buf ! slot (length buf) i) inds). length x = prod_list (data_shape hp)"
    using v rows by (auto simp: list_all_iff slot_less)
  with m init_random_rows show ?thesis by (rule mix_samples_rows)
qed

text \<open>
  Claim C10. After a call of \<^verbatim>\<open>sample_q\<close> on a non-empty buffer that returns, the buffer
  has as many slots as before, every slot that is not among the drawn ones holds the
  value it held before, and, when every sample of the buffer had the number of elements
  of \<^verbatim>\<open>data_shape\<close>, every sample still has it.
\<close>

theorem sample_q_frame:
  assumes p0: "sample_p_0 hp g (replay_buffer st) (batch_size hp y) y = Inr (init_sample, inds)"
    and ne: "replay_buffer st \<noteq> []"
    and ok: "fst (sample_q hp m g st y n_steps contrast) = Inr final"
  shows "length (replay_buffer (snd (sample_q hp m g st y n_steps contrast)))
           = length (replay_buffer st)
       \<and> (\<forall>k. k \<notin> slot (length (replay_buffer st)) ` set inds \<longrightarrow>
             replay_buffer (snd (sample_q hp m g st y n_steps contrast)) ! k = replay_buffer st ! k)
       \<and> (grad_shape_ok m \<and> (\<forall>r\<in>set (replay_buffer st). length r = prod_list (data_shape hp)) \<longrightarrow>
            (\<forall>r\<in>set (replay_buffer (snd (sample_q hp m g st y n_steps contrast))).
               length r = prod_list (data_shape hp)))"
proof -
  let ?buf = "replay_buffer st"
  let ?buf' = "replay_buffer (snd (sample_q hp m g st y n_steps contrast))"
  let ?ch = "put_choice g"
  from sample_q_Inr(2)[OF p0 ok] ne
  have ip: "index_put ?ch ?buf inds final = Inr ?buf'" by auto
  have "\<exists>vals. ?buf' = store_rows ?ch ?buf inds vals \<and> set vals \<subseteq> set final
          \<and> length vals = length inds"
  proof (cases "length final = length inds")
    case True
    with ip have "?buf' = store_rows ?ch ?buf inds final"
      by (simp add: index_put_def split: if_splits)
    with True show ?thesis by blast
  next
    case False
    with ip have l: "length final = 1"
      and b: "?buf' = store_rows ?ch ?buf inds (replicate (length inds) (hd final))"
      by (simp_all add: index_put_def split: if_splits)
    from l have "hd final \<in> set final" by (cases final) auto
    then have "set (replicate (length inds) (hd final)) \<subseteq> set final" by auto
    with b show ?thesis by (intro exI[of _ "replicate (length inds) (hd final)"]) simp
  qed
  then obtain vals where s: "?buf' = store_rows ?ch ?buf inds vals"
    and vals: "set vals \<subseteq> set final"
    and lv: "length vals = length inds"
    by blast
  have 1: "length ?buf' = length ?buf"
    unfolding s by (rule store_rows_length)
  have 2: "\<forall>k. k \<notin> slot (length ?buf) ` set inds \<longrightarrow> ?buf' ! k = ?buf ! k"
    unfolding s by (simp add: store_rows_other)
  have 3: "\<forall>r\<in>set ?buf'. length r = prod_list (data_shape hp)"
    if gs: "grad_shape_ok m" and rows: "\<forall>r\<in>set ?buf. length r = prod_list (data_shape hp)"
  proof -
    have i: "\<forall>r\<in>set init_sample. length r = prod_list (data_shape hp)"
      by (rule sample_p_0_rows[OF p0 ne rows])
    have "map length final = map length init_sample"
      by (rule sgld_shape[OF gs sample_q_Inr(1)[OF p0 ok]])
    then have "length ` set final = length ` set init_sample"
      by (metis set_map)
    with i have f: "\<forall>r\<in>set final. length r = prod_list (data_shape hp)"
      by (metis imageE imageI)
    from vals f rows store_rows_set[OF lv, of ?ch ?buf] show ?thesis
      unfolding s by blast
  qed
  from 1 2 3 show ?thesis by blast
qed

theorem sample_q_frame_witness:
  "sample_p_0 hp0 g0 (replay_buffer st0) (batch_size hp0 (Some [0, 1])) (Some [0, 1])
     = Inr ([[7], [6]], [1, 2])
   \<and> replay_buffer st0 \<noteq> []
   \<and> fst (sample_q hp0 m0 g0 st0 (Some [0, 1]) 2 False) = Inr [[67], [58]]
   \<and> grad_shape_ok m0
   \<and> list_all (\<lambda>r. length r = prod_list (data_shape hp0)) (replay_buffer st0)
   \<and> length (replay_buffer (snd (sample_q hp0 m0 g0 st0 (Some [0, 1]) 2 False))) = 4
   \<and> 0 \<notin> slot (length (replay_buffer st0)) ` set [1, 2]
   \<and> replay_buffer (snd (sample_q hp0 m0 g0 st0 (Some [0, 1]) 2 False)) ! 0 = replay_buffer st0 ! 0
   \<and> list_all (\<lambda>r. length r = prod_list (data_shape hp0))
         (replay_buffer (snd (sample_q hp0 m0 g0 st0 (Some [0, 1]) 2 False)))"
proof -
  have a: "sample_p_0 hp0 g0 (replay_buffer st0) (batch_size hp0 (Some [0, 1])) (Some [0, 1])
     = Inr ([[7], [6]], [1, 2])"
    by code_simp
  have b: "fst (sample_q hp0 m0 g0 st0 (Some [0, 1]) 2 False) = Inr [[67], [58]]"
    by code_simp
  have c: "replay_buffer st0 \<noteq> []" "length (replay_buffer st0) = 4"
    by (simp_all add: st0_def)
  have d: "0 \<notin> slot (length (replay_buffer st0)) ` set [1, 2]"
    by (simp add: st0_def slot_def)
  have e: "\<forall>r\<in>set (replay_buffer st0). length r = prod_list (data_shape hp0)"
    by (simp add: st0_def hp0_def)
  note f = sample_q_frame[OF a c(1) b]
  have 1: "length (replay_buffer (snd (sample_q hp0 m0 g0 st0 (Some [0, 1]) 2 False))) = 4"
    using f[THEN conjunct1] c(2) by simp
  have 2: "replay_buffer (snd (sample_q hp0 m0 g0 st0 (Some [0, 1]) 2 False)) ! 0
             = replay_buffer st0 ! 0"
    using f[THEN conjunct2, THEN conjunct1, rule_format, OF d] .
  have 3: "\<forall>r\<in>set (replay_buffer (snd (sample_q hp0 m0 g0 st0 (Some [0, 1]) 2 False))).
         length r = prod_list (data_shape hp0)"
    using f[THEN conjunct2, THEN conjunct2, rule_format, OF conjI[OF m0_shape e]] by blast
  from a b c(1) d e m0_shape 1 2 3 show ?thesis by (simp add: list_all_iff)
qed


subsection \<open>Positions that stop being finite\<close>

text \<open>
  Claim C4 says that positions which become NaN or infinite make the sampler raise
  before it writes to the buffer. They do not: with a scoring network whose gradient is
  infinite the first update makes the position infinite, the call returns normally, and
  the drawn slot holds the infinite value afterwards.
\<close>

theorem sample_q_divergence_counterexample:
  "replay_buffer stF = [[Fin 3], [Fin 5]]
   \<and> sgld_update hpF gF 0 [[Fin 3]] [[PInf]] = [[PInf]]
   \<and> \<not> isfinite PInf
   \<and> sample_q hpF mF gF stF None 1 False
       = (Inr [[PInf]], stF\<lparr>replay_buffer := [[PInf], [Fin 5]]\<rparr>)"
  by code_simp

text \<open>
  Claim C4, amended. A call of \<^verbatim>\<open>sample_q\<close> that raises leaves the contents of the buffer
  as they were before the call. The values of the positions are never inspected:
  whenever the initial samples were produced and the loop has not raised, the call
  returns the final positions, and every drawn slot then holds the final sample of a
  position that drew it. The gradient has the shape of the positions.
\<close>

theorem sample_q_failure_keeps_buffer:
  "(\<forall>e. fst (sample_q hp m g st y n c) = Inl e \<longrightarrow>
       replay_buffer (snd (sample_q hp m g st y n c)) = replay_buffer st)
   \<and> (\<forall>init_sample inds final.
        grad_shape_ok m \<and> replay_buffer st \<noteq> [] \<and>
        sample_p_0 hp g (replay_buffer st) (batch_size hp y) y = Inr (init_sample, inds) \<and>
        sgld n hp m g False (model_params st) y (batch_size hp y) c 0 init_sample = Inr final \<longrightarrow>
        fst (sample_q hp m g st y n c) = Inr final \<and>
        (\<forall>p<length inds. \<exists>q<length inds.
           slot (length (replay_buffer st)) (inds ! q) = slot (length (replay_buffer st)) (inds ! p) \<and>
           replay_buffer (snd (sample_q hp m g st y n c)) ! slot (length (replay_buffer st)) (inds ! p)
             = final ! q))"
proof -
  have 1: "replay_buffer (snd (sample_q hp m g st y n c)) = replay_buffer st"
    if "fst (sample_q hp m g st y n c) = Inl e" for e
    using that by (auto simp: sample_q_def Let_def split: sum.splits prod.splits if_splits)
  have 2: "fst (sample_q hp m g st y n c) = Inr final \<and>
        (\<forall>p<length inds. \<exists>q<length inds.
           slot (length (replay_buffer st)) (inds ! q) = slot (length (replay_buffer st)) (inds ! p) \<and>
           replay_buffer (snd (sample_q hp m g st y n c)) ! slot (length (replay_buffer st)) (inds ! p)
             = final ! q)"
    if gs: "grad_shape_ok m" and ne: "replay_buffer st \<noteq> []"
      and p0: "sample_p_0 hp g (replay_buffer st) (batch_size hp y) y = Inr (init_sample, inds)"
      and sg: "sgld n hp m g False (model_params st) y (batch_size hp y) c 0 init_sample = Inr final"
    for init_sample inds final
  proof -
    have r: "sample_q hp m g st y n c =
        (Inr final, st\<lparr>model_training := True,
           replay_buffer := store_rows (put_choice g) (replay_buffer st) inds final\<rparr>)"
      unfolding sample_q_stages[OF gs] using p0 sg ne by simp
    have "\<exists>q<length inds.
           slot (length (replay_buffer st)) (inds ! q) = slot (length (replay_buffer st)) (inds ! p) \<and>
           store_rows (put_choice g) (replay_buffer st) inds final
             ! slot (length (replay_buffer st)) (inds ! p) = final ! q"
      if "p < length inds" for p
    proof -
      from sample_p_0_lengths(2)[OF p0 ne] that
      have "valid_index (length (replay_buffer st)) (inds ! p)"
        by (simp add: list_all_length)
      with that show ?thesis by (rule store_rows_drawn)
    qed
    with r show ?thesis by simp
  qed
  from 1 2 show ?thesis by blast
qed

theorem sample_q_failure_keeps_buffer_witness:
  "fst (sample_q hp0 m_raise g0 st0 (Some [0, 1]) 1 False) = Inl ScoringError
   \<and> replay_buffer (snd (sample_q hp0 m_raise g0 st0 (Some [0, 1]) 1 False)) = replay_buffer st0
   \<and> grad_shape_ok mF \<and> replay_buffer stF \<noteq> []
   \<and> sample_p_0 hpF gF (replay_buffer stF) (batch_size hpF None) None = Inr ([[Fin 3]], [0])
   \<and> sgld 1 hpF mF gF False (model_params stF) None (batch_size hpF None) False 0 [[Fin 3]]
       = Inr [[PInf]]
   \<and> fst (sample_q hpF mF gF stF None 1 False) = Inr [[PInf]]
   \<and> replay_buffer (snd (sample_q hpF mF gF stF None 1 False))
       ! slot (length (replay_buffer stF)) ([0] ! 0) = [[PInf]] ! 0"
proof -
  have a: "fst (sample_q hp0 m_raise g0 st0 (Some [0, 1]) 1 False) = Inl ScoringError"
    by code_simp
  have b: "replay_buffer stF \<noteq> []"
    by (simp add: stF_def)
  have c: "sample_p_0 hpF gF (replay_buffer stF) (batch_size hpF None) None = Inr ([[Fin 3]], [0])"
    by code_simp
  have d: "sgld 1 hpF mF gF False (model_params stF) None (batch_size hpF None) False 0 [[Fin 3]]
       = Inr [[PInf]]"
    by code_simp
  have 1: "replay_buffer (snd (sample_q hp0 m_raise g0 st0 (Some [0, 1]) 1 False))
             = replay_buffer st0"
    using sample_q_failure_keeps_buffer[of hp0 m_raise g0 st0 "Some [0, 1]" 1 False,
            THEN conjunct1, rule_format, OF a] .
  note t = sample_q_failure_keeps_buffer[of hpF mF gF stF None 1 False,
            THEN conjunct2, rule_format, of "[[Fin 3]]" "[0]" "[[PInf]]"]
  from t mF_shape b c d
  have 2: "fst (sample_q hpF mF gF stF None 1 False) = Inr [[PInf]]"
    and 3: "\<forall>p<length [0 :: int]. \<exists>q<length [0 :: int].
           slot (length (replay_buffer stF)) ([0] ! q) = slot (length (replay_buffer stF)) ([0] ! p) \<and>
           replay_buffer (snd (sample_q hpF mF gF stF None 1 False))
             ! slot (length (replay_buffer stF)) ([0] ! p) = [[PInf]] ! q"
    by blast+
  from 3 have 4: "replay_buffer (snd (sample_q hpF mF gF stF None 1 False))
       ! slot (length (replay_buffer stF)) ([0] ! 0) = [[PInf]] ! 0"
    by auto
  from a b c d mF_shape 1 2 4 show ?thesis by blast
qed


end
